theory Spec2Isabelle
  imports Main "HOL-Library.Multiset"
begin

section \<open>The dataset folder as the program sees it\<close>

text \<open>
  \<^verbatim>\<open>kopernikus_solution.py\<close> touches the file system through three calls:
  \<^verbatim>\<open>os.listdir(self.folder)\<close>, \<open>os.remove\<close> on a path inside \<^verbatim>\<open>self.folder\<close>, and
  \<^verbatim>\<open>cv2.imread\<close> on such a path. The folder is modelled as the ordered list of its
  entries, in the order \<^verbatim>\<open>os.listdir\<close> enumerates them. A path built with
  \<^verbatim>\<open>os.path.join(self.folder, name)\<close> uses the separator of the platform and addresses the
  entry of that name in the folder. The path of the marker file is not built that way: it
  is the string \<^verbatim>\<open>self.folder + r"\.DS_Store"\<close>, and where it leads depends on the path
  rules of the platform (see \<open>locate\<close> below).
  A file name is a list of characters, one \<^typ>\<open>char\<close> per character of the Python string.
\<close>

datatype os_error = FileNotFoundError | PermissionError

datatype node = RegularFile | ProtectedFile | SubDirectory

text \<open>
  \<open>remove_calls\<close> records every name \<^verbatim>\<open>os.remove\<close> has been called on, oldest first,
  whether the call succeeded or raised.
\<close>

record filesystem =
  entries :: "(string \<times> node) list"
  remove_calls :: "string list"

definition os_listdir :: "filesystem \<Rightarrow> string list" where
  "os_listdir fs = map fst (entries fs)"

text \<open>
  \<^verbatim>\<open>os.remove\<close>: raises \<^verbatim>\<open>FileNotFoundError\<close> when nothing has that name, raises
  \<^verbatim>\<open>PermissionError\<close> on a file that may not be deleted or on a directory, and otherwise
  unlinks the file. (On a directory some platforms raise \<^verbatim>\<open>IsADirectoryError\<close> instead;
  like \<^verbatim>\<open>PermissionError\<close> it is an \<^verbatim>\<open>Exception\<close> and not a
  \<^verbatim>\<open>FileNotFoundError\<close>, which is all the program distinguishes.)
\<close>

definition os_remove :: "filesystem \<Rightarrow> string \<Rightarrow> filesystem \<times> (os_error + unit)" where
  "os_remove fs name =
     (let fs1 = fs\<lparr>remove_calls := remove_calls fs @ [name]\<rparr> in
      case map_of (entries fs) name of
        None \<Rightarrow> (fs1, Inl FileNotFoundError)
      | Some RegularFile \<Rightarrow>
          (fs1\<lparr>entries := filter (\<lambda>e. fst e \<noteq> name) (entries fs)\<rparr>, Inr ())
      | Some ProtectedFile \<Rightarrow> (fs1, Inl PermissionError)
      | Some SubDirectory \<Rightarrow> (fs1, Inl PermissionError))"

section \<open>\<^verbatim>\<open>SimilarPhotoRemover.load_input\<close>\<close>

text \<open>
  \<^verbatim>\<open>self.dataset_dict\<close> is a Python dictionary from camera names to lists of file names.
  Python dictionaries keep insertion order and \<^verbatim>\<open>identify_similar_photos\<close> iterates over
  it, so it is an association list in insertion order. Storing under a new key appends an
  entry; \<^verbatim>\<open>self.dataset_dict[camera].append(file_name)\<close> extends the entry of an existing key
  in place.
\<close>

type_synonym dataset_dict = "(string \<times> string list) list"

definition dict_contains :: "dataset_dict \<Rightarrow> string \<Rightarrow> bool" where
  "dict_contains d camera = (camera \<in> set (map fst d))"

definition dict_new_key :: "dataset_dict \<Rightarrow> string \<Rightarrow> dataset_dict" where
  "dict_new_key d camera = d @ [(camera, [])]"

definition dict_append :: "dataset_dict \<Rightarrow> string \<Rightarrow> string \<Rightarrow> dataset_dict" where
  "dict_append d camera file_name =
     map (\<lambda>kv. if fst kv = camera then (fst kv, snd kv @ [file_name]) else kv) d"

text \<open>The loop over \<^verbatim>\<open>os.listdir(self.folder)\<close> (source lines 43 to 48).\<close>

fun group_files :: "string list \<Rightarrow> dataset_dict \<Rightarrow> dataset_dict" where
  "group_files [] d = d"
| "group_files (file_name # rest) d =
     (let camera = take 3 file_name in
      if \<not> dict_contains d camera
      then group_files rest (dict_new_key d camera)
      else group_files rest (dict_append d camera file_name))"

text \<open>
  Where the marker path leads. Under Windows path rules the backslash and the slash both
  separate the components of a path; under POSIX rules only the slash does, and the
  backslash is an ordinary character of a file name.
\<close>

datatype path_rules = WindowsRules | PosixRules

definition backslash :: char where
  "backslash = CHR 0x5C"

definition is_sep :: "path_rules \<Rightarrow> char \<Rightarrow> bool" where
  "is_sep pr c = (c = CHR ''/'' \<or> (pr = WindowsRules \<and> c = backslash))"

datatype place = InFolder string | OutsideFolder

text \<open>
  \<open>locate pr folder path\<close>: a path that consists of the folder's path (trailing separators
  aside), at least one separator, and one more component names the entry of the folder
  with that component as its name. Any other path leads outside the folder. The folder's
  path is taken to name the directory by its last component (it is not \<^verbatim>\<open>.\<close>, \<^verbatim>\<open>..\<close>
  or a bare drive).
\<close>

definition locate :: "path_rules \<Rightarrow> string \<Rightarrow> string \<Rightarrow> place" where
  "locate pr folder path =
     (let f = rev (dropWhile (is_sep pr) (rev folder));
          rest = drop (length f) path;
          name = dropWhile (is_sep pr) rest
      in if take (length f) path = f \<and> name \<noteq> rest \<and> name \<noteq> []
            \<and> filter (is_sep pr) name = []
         then InFolder name
         else OutsideFolder)"

text \<open>
  The machine \<^verbatim>\<open>load_input\<close> runs on: its path rules, the string \<^verbatim>\<open>self.folder\<close>, the
  dataset folder, and what sits at paths outside the folder (keyed by the path).
\<close>

record host =
  os_rules :: path_rules
  folder :: string
  dataset :: filesystem
  outside :: filesystem

text \<open>\<^verbatim>\<open>os.remove\<close> on a path given as a string.\<close>

definition os_remove_path :: "host \<Rightarrow> string \<Rightarrow> host \<times> (os_error + unit)" where
  "os_remove_path h path =
     (case locate (os_rules h) (folder h) path of
        InFolder name \<Rightarrow>
          (h\<lparr>dataset := fst (os_remove (dataset h) name)\<rparr>, snd (os_remove (dataset h) name))
      | OutsideFolder \<Rightarrow>
          (h\<lparr>outside := fst (os_remove (outside h) path)\<rparr>, snd (os_remove (outside h) path)))"

text \<open>
  \<^verbatim>\<open>load_input\<close>: the attempt to delete \<^verbatim>\<open>self.folder + r"\.DS_Store"\<close> (source lines 33
  to 36), where only \<^verbatim>\<open>FileNotFoundError\<close> is caught (any other exception of
  \<^verbatim>\<open>os.remove\<close> leaves the method), then the grouping of the listing of the folder. The
  two \<^verbatim>\<open>print\<close> statements do not affect the state and are left out.
\<close>

definition load_input :: "host \<Rightarrow> os_error + (host \<times> dataset_dict)" where
  "load_input h =
     (case os_remove_path h (folder h @ backslash # ''.DS_Store'') of
        (h1, Inr u) \<Rightarrow> Inr (h1, group_files (os_listdir (dataset h1)) [])
      | (h1, Inl e) \<Rightarrow>
          (case e of
             FileNotFoundError \<Rightarrow> Inr (h1, group_files (os_listdir (dataset h1)) [])
           | PermissionError \<Rightarrow> Inl e))"

section \<open>\<^verbatim>\<open>SimilarPhotoRemover.remove_similar_photos\<close>\<close>

text \<open>
  The loop over \<^verbatim>\<open>self.unwanted_images\<close> (source lines 160 to 170). The handler is
  \<^verbatim>\<open>except Exception\<close>, so every error of \<^verbatim>\<open>os.remove\<close> is caught; in the handler the
  source executes \<^verbatim>\<open>num_removed_images -= 1\<close>. The counter is a Python integer.
\<close>

fun remove_loop :: "string list \<Rightarrow> filesystem \<Rightarrow> int \<Rightarrow> filesystem \<times> int" where
  "remove_loop [] fs num_removed_images = (fs, num_removed_images)"
| "remove_loop (image_name # rest) fs num_removed_images =
     (case os_remove fs image_name of
        (fs1, Inr u) \<Rightarrow> remove_loop rest fs1 (num_removed_images + 1)
      | (fs1, Inl e) \<Rightarrow> remove_loop rest fs1 (num_removed_images - 1))"

text \<open>
  The method returns nothing; what it reports is the number it prints after the loop,
  \<^verbatim>\<open>Total number of removed images = {num_removed_images}\<close>. The model returns the file
  system after the loop and that number.
\<close>

definition remove_similar_photos :: "filesystem \<Rightarrow> string list \<Rightarrow> filesystem \<times> int" where
  "remove_similar_photos fs unwanted_images = remove_loop unwanted_images fs 0"

text \<open>
  The number the specification asks for: how many names of the list were deleted
  successfully, counted along the same sequence of calls.
\<close>

fun successful_deletions :: "filesystem \<Rightarrow> string list \<Rightarrow> nat" where
  "successful_deletions fs [] = 0"
| "successful_deletions fs (image_name # rest) =
     (case os_remove fs image_name of
        (fs1, Inr u) \<Rightarrow> Suc (successful_deletions fs1 rest)
      | (fs1, Inl e) \<Rightarrow> successful_deletions fs1 rest)"

section \<open>\<^verbatim>\<open>SimilarPhotoRemover.identify_similar_photos\<close>\<close>

text \<open>
  A decoded image is a numpy array; the program reads its \<^verbatim>\<open>shape\<close>, a triple
  (rows, columns, channels), and hands the array to OpenCV and to the two imported
  functions. The pixel data is opaque to the program and is a type parameter.
\<close>

record 'px image =
  rows :: nat
  cols :: nat
  channels :: nat
  pixels :: 'px

definition shape :: "'px image \<Rightarrow> nat \<times> nat \<times> nat" where
  "shape img = (rows img, cols img, channels img)"

text \<open>
  What the method calls and does not define: \<^verbatim>\<open>cv2.imread\<close> on the path of a file name
  (\<open>None\<close> when the file cannot be decoded), the resampling done by
  \<^verbatim>\<open>cv2.resize(..., interpolation=cv2.INTER_AREA)\<close>, and the two functions imported from
  \<^verbatim>\<open>imaging_interview\<close>. Of \<^verbatim>\<open>compare_frames_change_detection\<close> the program keeps only the
  first component of the result, the score. They are functions that return on every input:
  \<^verbatim>\<open>imaging_interview\<close> is not part of the source file, and the method has no handler
  around these calls. A score is compared with the threshold by \<open><\<close> only, so its type
  is any type with an order.
\<close>

record ('px, 'g, 's) vision =
  imread :: "string \<Rightarrow> 'px image option"
  inter_area :: "'px image \<Rightarrow> nat \<times> nat \<Rightarrow> 'px"
  preprocess_image_change_detection :: "'px image \<Rightarrow> nat list \<Rightarrow> 'g"
  compare_frames_change_detection :: "'g \<Rightarrow> 'g \<Rightarrow> nat \<Rightarrow> 's"

text \<open>
  \<^verbatim>\<open>cv2.resize(src, dsize, ...)\<close>: \<open>dsize\<close> is (width, height), and the result has
  \<open>height\<close> rows, \<open>width\<close> columns and the channels of \<open>src\<close>.
\<close>

definition cv2_resize ::
  "('px, 'g, 's) vision \<Rightarrow> 'px image \<Rightarrow> nat \<times> nat \<Rightarrow> 'px image" where
  "cv2_resize cv src dsize =
     src\<lparr>rows := snd dsize, cols := fst dsize, pixels := inter_area cv src dsize\<rparr>"

text \<open>Source lines 112 to 116: the resize of \<^verbatim>\<open>next_image\<close> when the shapes differ.\<close>

definition reconcile :: "('px, 'g, 's) vision \<Rightarrow> 'px image \<Rightarrow> 'px image \<Rightarrow> 'px image" where
  "reconcile cv current_image next_image =
     (if shape current_image \<noteq> shape next_image
      then (let new_hight = fst (snd (shape current_image));
                new_width = fst (shape current_image);
                new_dim = (new_hight, new_width)
            in cv2_resize cv next_image new_dim)
      else next_image)"

text \<open>Source lines 119 to 126: preprocessing of both images and the score.\<close>

definition score_of ::
  "('px, 'g, 's) vision \<Rightarrow> nat list \<Rightarrow> nat \<Rightarrow> 'px image \<Rightarrow> 'px image \<Rightarrow> 's" where
  "score_of cv Gaussian_blur_radius_list_input min_contour_area_input current_image next_image =
     (let current_image_gray =
            preprocess_image_change_detection cv current_image Gaussian_blur_radius_list_input;
          next_image_gray =
            preprocess_image_change_detection cv next_image Gaussian_blur_radius_list_input
      in compare_frames_change_detection cv current_image_gray next_image_gray
           min_contour_area_input)"

text \<open>
  The body of the inner loop (source lines 94 to 136) on the state it updates:
  \<^verbatim>\<open>current_image\<close> (\<open>None\<close> until a frame has been decoded) and
  \<^verbatim>\<open>self.unwanted_images\<close>. The source's variable \<^verbatim>\<open>image\<close> is \<open>img\<close> here.
\<close>

type_synonym 'px walk_state = "'px image option \<times> string list"

definition detect_step ::
  "('px, 'g, 's::ord) vision \<Rightarrow> nat list \<Rightarrow> 's \<Rightarrow> nat \<Rightarrow>
     'px walk_state \<Rightarrow> string \<Rightarrow> 'px walk_state" where
  "detect_step cv Gaussian_blur_radius_list_input score_threshold_input min_contour_area_input
       st image_idx_name =
     (case imread cv image_idx_name of
        None \<Rightarrow> (fst st, snd st @ [image_idx_name])
      | Some img \<Rightarrow>
          (case fst st of
             None \<Rightarrow> (Some img, snd st)
           | Some current_image \<Rightarrow>
               (let next_image = reconcile cv current_image img;
                    score = score_of cv Gaussian_blur_radius_list_input min_contour_area_input
                              current_image next_image
                in if score < score_threshold_input
                   then (Some current_image, snd st @ [image_idx_name])
                   else (Some next_image, snd st))))"

text \<open>The inner loop over the file names of one camera.\<close>

fun images_loop ::
  "('px, 'g, 's::ord) vision \<Rightarrow> nat list \<Rightarrow> 's \<Rightarrow> nat \<Rightarrow>
     'px walk_state \<Rightarrow> string list \<Rightarrow> 'px walk_state" where
  "images_loop cv radii threshold area st [] = st"
| "images_loop cv radii threshold area st (image_idx_name # rest) =
     images_loop cv radii threshold area
       (detect_step cv radii threshold area st image_idx_name) rest"

text \<open>
  The outer loop over the cameras (source lines 83 to 88). A Python dictionary holds each
  key once, so iterating over the keys and indexing the dictionary with each is iterating
  over its entries. \<^verbatim>\<open>current_image\<close> is set to \<open>None\<close> at the start of each camera.
\<close>

fun cameras_loop ::
  "('px, 'g, 's::ord) vision \<Rightarrow> nat list \<Rightarrow> 's \<Rightarrow> nat \<Rightarrow>
     string list \<Rightarrow> dataset_dict \<Rightarrow> string list" where
  "cameras_loop cv radii threshold area unwanted_images [] = unwanted_images"
| "cameras_loop cv radii threshold area unwanted_images (entry # rest) =
     cameras_loop cv radii threshold area
       (snd (images_loop cv radii threshold area (None, unwanted_images) (snd entry))) rest"

definition identify_similar_photos ::
  "('px, 'g, 's::ord) vision \<Rightarrow> dataset_dict \<Rightarrow> nat list \<Rightarrow> 's \<Rightarrow> nat \<Rightarrow> string list" where
  "identify_similar_photos cv dataset_dict Gaussian_blur_radius_list_input
       score_threshold_input min_contour_area_input =
     cameras_loop cv Gaussian_blur_radius_list_input score_threshold_input
       min_contour_area_input [] dataset_dict"

text \<open>What one camera adds to the list when its walk starts with no image held.\<close>

definition camera_walk ::
  "('px, 'g, 's::ord) vision \<Rightarrow> nat list \<Rightarrow> 's \<Rightarrow> nat \<Rightarrow> string list \<Rightarrow> string list" where
  "camera_walk cv radii threshold area names =
     snd (images_loop cv radii threshold area (None, []) names)"

section \<open>A small dataset for evaluation\<close>

text \<open>
  A concrete instance of the externals, on which the theorems below are evaluated. A frame
  carries one number as its pixel data; resampling and preprocessing keep that number, and
  the score of two frames is a hundred times the distance of their numbers. Camera
  \<^verbatim>\<open>c10\<close> has a frame, a near copy of it (score 100), and a different frame in portrait
  format (score 2000); \<^verbatim>\<open>c10-0.png\<close> and every other name do not decode; camera
  \<^verbatim>\<open>c20\<close> has two identical frames.
\<close>

definition demo_frame :: "nat \<Rightarrow> nat \<Rightarrow> nat \<Rightarrow> nat image" where
  "demo_frame h w v = \<lparr>rows = h, cols = w, channels = 3, pixels = v\<rparr>"

definition demo_vision :: "(nat, nat, int) vision" where
  "demo_vision =
     \<lparr>imread = (\<lambda>name.
          if name = ''c10-1.png'' then Some (demo_frame 2 4 10)
          else if name = ''c10-2.png'' then Some (demo_frame 2 4 11)
          else if name = ''c10-3.png'' then Some (demo_frame 4 2 30)
          else if name = ''c20-1.png'' then Some (demo_frame 2 4 50)
          else if name = ''c20-2.png'' then Some (demo_frame 2 4 50)
          else None),
       inter_area = (\<lambda>src dsize. pixels src),
       preprocess_image_change_detection = (\<lambda>img radii. pixels img),
       compare_frames_change_detection =
         (\<lambda>g1 g2 min_area. 100 * \<bar>int g1 - int g2\<bar>)\<rparr>"

section \<open>The remover\<close>

lemma remove_loop_count:
  "snd (remove_loop names fs n) =
     n + 2 * int (successful_deletions fs names) - int (length names)"
proof (induction names arbitrary: fs n)
  case Nil
  show ?case by simp
next
  case (Cons a names)
  show ?case
  proof (cases "os_remove fs a")
    case (Pair fs1 r)
    then show ?thesis
      by (cases r) (simp_all add: Cons.IH)
  qed
qed

lemma map_of_filter_other:
  "map_of (filter (\<lambda>e. fst e \<noteq> a) es) k = (if k = a then None else map_of es k)"
  by (induction es) auto

lemma os_remove_calls: "remove_calls (fst (os_remove fs name)) = remove_calls fs @ [name]"
  by (simp add: os_remove_def Let_def split: option.splits node.splits)

lemma os_remove_entries:
  "entries (fst (os_remove fs name)) =
     (if map_of (entries fs) name = Some RegularFile
      then filter (\<lambda>e. fst e \<noteq> name) (entries fs) else entries fs)"
  by (simp add: os_remove_def Let_def split: option.splits node.splits)

lemma remove_loop_step:
  "remove_loop (a # names) fs n =
     remove_loop names (fst (os_remove fs a))
       (case snd (os_remove fs a) of Inr u \<Rightarrow> n + 1 | Inl e \<Rightarrow> n - 1)"
  by (cases "os_remove fs a") (simp split: sum.splits)

lemma remove_loop_calls:
  "remove_calls (fst (remove_loop names fs n)) = remove_calls fs @ names"
proof (induction names arbitrary: fs n)
  case Nil
  show ?case by simp
next
  case (Cons a names)
  show ?case
    unfolding remove_loop_step by (simp add: Cons.IH os_remove_calls)
qed

lemma remove_loop_entries:
  "entries (fst (remove_loop names fs n)) =
     filter (\<lambda>e. \<not> (fst e \<in> set names \<and> map_of (entries fs) (fst e) = Some RegularFile))
       (entries fs)"
proof (induction names arbitrary: fs n)
  case Nil
  show ?case by simp
next
  case (Cons a names)
  show ?case
  proof (cases "map_of (entries fs) a = Some RegularFile")
    case True
    have "entries (fst (remove_loop (a # names) fs n)) =
        filter (\<lambda>e. \<not> (fst e \<in> set names \<and>
            map_of (filter (\<lambda>e. fst e \<noteq> a) (entries fs)) (fst e) = Some RegularFile))
          (filter (\<lambda>e. fst e \<noteq> a) (entries fs))"
      unfolding remove_loop_step by (simp add: Cons.IH os_remove_entries True)
    also have "\<dots> = filter (\<lambda>e. \<not> (fst e \<in> set (a # names) \<and>
            map_of (entries fs) (fst e) = Some RegularFile)) (entries fs)"
      using True by (auto simp: map_of_filter_other intro!: filter_cong)
    finally show ?thesis .
  next
    case False
    have "entries (fst (remove_loop (a # names) fs n)) =
        filter (\<lambda>e. \<not> (fst e \<in> set names \<and> map_of (entries fs) (fst e) = Some RegularFile))
          (entries fs)"
      unfolding remove_loop_step by (simp add: Cons.IH os_remove_entries False)
    also have "\<dots> = filter (\<lambda>e. \<not> (fst e \<in> set (a # names) \<and>
            map_of (entries fs) (fst e) = Some RegularFile)) (entries fs)"
      using False by (auto intro!: filter_cong)
    finally show ?thesis .
  qed
qed

text \<open>
  Claim C1 says that the number the remover reports is the number of names whose deletion
  succeeded, and that a failed deletion leaves the reported number alone. By
  \<open>remove_loop_count\<close> the source reports the successes minus the failures. On an empty
  folder and the one-name list \<^verbatim>\<open>["c10-1.png"]\<close> nothing is deleted, the only call to
  \<^verbatim>\<open>os.remove\<close> raises, and the reported number is \<open>-1\<close>, not \<open>0\<close>.
\<close>

theorem remover_count_bug:
  "remove_similar_photos \<lparr>entries = [], remove_calls = []\<rparr> [''c10-1.png''] =
     (\<lparr>entries = [], remove_calls = [''c10-1.png'']\<rparr>, - 1)
   \<and> successful_deletions \<lparr>entries = [], remove_calls = []\<rparr> [''c10-1.png''] = 0"
  by (simp add: remove_similar_photos_def os_remove_def)

text \<open>
  Claim C8: a deletion that fails does not leave the remover and does not stop the loop.
  \<open>remove_similar_photos\<close> returns a state and a number for every folder and every list
  (it has no error result); \<^verbatim>\<open>os.remove\<close> is called on every name of the list exactly
  once, in list order, whatever the earlier calls did; and after the loop every deletable
  file named in the list is gone, also those named after a name whose deletion failed.
\<close>

theorem remover_continues:
  "remove_calls (fst (remove_similar_photos fs unwanted_images)) =
     remove_calls fs @ unwanted_images
   \<and> entries (fst (remove_similar_photos fs unwanted_images)) =
       filter (\<lambda>e. \<not> (fst e \<in> set unwanted_images \<and>
                      map_of (entries fs) (fst e) = Some RegularFile)) (entries fs)"
  by (simp add: remove_similar_photos_def remove_loop_calls remove_loop_entries)

text \<open>
  An instance: the second name of three is missing from the folder, and the third is still
  attempted and deleted.
\<close>

theorem remover_continues_witness:
  "remove_calls (fst (remove_similar_photos
      \<lparr>entries = [(''c10-1.png'', RegularFile), (''c10-3.png'', RegularFile)], remove_calls = []\<rparr>
      [''c10-1.png'', ''c10-2.png'', ''c10-3.png''])) =
     [''c10-1.png'', ''c10-2.png'', ''c10-3.png'']
   \<and> entries (fst (remove_similar_photos
      \<lparr>entries = [(''c10-1.png'', RegularFile), (''c10-3.png'', RegularFile)], remove_calls = []\<rparr>
      [''c10-1.png'', ''c10-2.png'', ''c10-3.png''])) = []"
  using remover_continues [of
      "\<lparr>entries = [(''c10-1.png'', RegularFile), (''c10-3.png'', RegularFile)], remove_calls = []\<rparr>"
      "[''c10-1.png'', ''c10-2.png'', ''c10-3.png'']"]
  by simp

section \<open>The loader\<close>

lemma map_of_dict_new_key:
  "map_of (dict_new_key d camera) k =
     (case map_of d k of Some v \<Rightarrow> Some v | None \<Rightarrow> if k = camera then Some [] else None)"
  by (simp add: dict_new_key_def map_add_def split: option.splits)

lemma map_of_dict_append:
  "map_of (dict_append d camera file_name) k =
     (case map_of d k of
        Some v \<Rightarrow> Some (if k = camera then v @ [file_name] else v)
      | None \<Rightarrow> None)"
  by (induction d) (auto simp: dict_append_def)

lemma dict_contains_map_of: "dict_contains d camera = (map_of d camera \<noteq> None)"
  by (simp add: dict_contains_def map_of_eq_None_iff)

lemma map_of_group_files:
  "map_of (group_files listing d) camera =
     (case map_of d camera of
        Some v \<Rightarrow> Some (v @ filter (\<lambda>f. take 3 f = camera) listing)
      | None \<Rightarrow>
          if camera \<in> set (map (take 3) listing)
          then Some (tl (filter (\<lambda>f. take 3 f = camera) listing))
          else None)"
proof (induction listing arbitrary: d)
  case Nil
  show ?case by (simp split: option.splits)
next
  case (Cons file_name rest)
  show ?case
  proof (cases "dict_contains d (take 3 file_name)")
    case True
    then show ?thesis
      by (auto simp: Cons.IH map_of_dict_append dict_contains_map_of split: option.splits)
  next
    case False
    then show ?thesis
      by (auto simp: Cons.IH map_of_dict_new_key dict_contains_map_of split: option.splits)
  qed
qed

lemma tl_filter_dropWhile:
  "tl (filter P xs) = filter P (tl (dropWhile (\<lambda>x. \<not> P x) xs))"
  by (induction xs) auto

lemma keys_dict_append: "map fst (dict_append d camera file_name) = map fst d"
  by (simp add: dict_append_def comp_def)

lemma keys_dict_new_key: "map fst (dict_new_key d camera) = map fst d @ [camera]"
  by (simp add: dict_new_key_def)

lemma keys_group_files:
  "set (map fst (group_files listing d)) = set (map fst d) \<union> set (map (take 3) listing)"
proof (induction listing arbitrary: d)
  case Nil
  show ?case by simp
next
  case (Cons file_name rest)
  show ?case
  proof (cases "dict_contains d (take 3 file_name)")
    case True
    then show ?thesis
      using Cons.IH [of "dict_append d (take 3 file_name) file_name"]
      by (auto simp: keys_dict_append dict_contains_def)
  next
    case False
    then show ?thesis
      using Cons.IH [of "dict_new_key d (take 3 file_name)"]
      by (auto simp: keys_dict_new_key dict_contains_def)
  qed
qed

lemma distinct_group_files:
  "distinct (map fst d) \<Longrightarrow> distinct (map fst (group_files listing d))"
proof (induction listing arbitrary: d)
  case Nil
  then show ?case by simp
next
  case (Cons file_name rest)
  show ?case
  proof (cases "dict_contains d (take 3 file_name)")
    case True
    then show ?thesis
      using Cons.IH [of "dict_append d (take 3 file_name) file_name"] Cons.prems
      by (simp add: keys_dict_append)
  next
    case False
    then show ?thesis
      using Cons.IH [of "dict_new_key d (take 3 file_name)"] Cons.prems
      by (simp add: keys_dict_new_key dict_contains_def)
  qed
qed

text \<open>
  Claim C2: for every folder listing, the dictionary the loader builds has one entry per
  camera key (the first three characters of a file name), and the entry of a key holds
  exactly the file names with that prefix that come strictly after the first file name
  with that prefix, in listing order. The file name that created the key is not in the
  entry.
\<close>

theorem loader_groups_after_first:
  "distinct (map fst (group_files listing []))
   \<and> set (map fst (group_files listing [])) = set (map (take 3) listing)
   \<and> map_of (group_files listing []) camera =
       (if camera \<in> set (map (take 3) listing)
        then Some (filter (\<lambda>f. take 3 f = camera)
                     (tl (dropWhile (\<lambda>f. take 3 f \<noteq> camera) listing)))
        else None)"
proof (intro conjI)
  show "distinct (map fst (group_files listing []))"
    by (rule distinct_group_files) simp
  show "set (map fst (group_files listing [])) = set (map (take 3) listing)"
    by (simp add: keys_group_files del: set_map)
  show "map_of (group_files listing []) camera =
       (if camera \<in> set (map (take 3) listing)
        then Some (filter (\<lambda>f. take 3 f = camera)
                     (tl (dropWhile (\<lambda>f. take 3 f \<noteq> camera) listing)))
        else None)"
    by (simp add: map_of_group_files tl_filter_dropWhile)
qed

text \<open>
  An instance: \<^verbatim>\<open>c10-1.png\<close> creates the key \<^verbatim>\<open>c10\<close> and is left out of its list.
\<close>

theorem loader_groups_after_first_witness:
  "map_of (group_files [''c10-1.png'', ''c20-1.png'', ''c10-2.png'', ''c10-3.png''] []) ''c10''
     = Some [''c10-2.png'', ''c10-3.png'']
   \<and> map fst (group_files [''c10-1.png'', ''c20-1.png'', ''c10-2.png'', ''c10-3.png''] [])
     = [''c10'', ''c20'']"
  using loader_groups_after_first
    [of "[''c10-1.png'', ''c20-1.png'', ''c10-2.png'', ''c10-3.png'']" "''c10''"]
  by (simp add: dict_contains_def dict_new_key_def dict_append_def)

text \<open>
  The marker path under the two sets of rules, for a folder path without a trailing
  separator: under Windows rules it names the folder's entry \<^verbatim>\<open>.DS_Store\<close>; under POSIX
  rules it leads outside the folder, whatever the folder holds.
\<close>

lemma locate_marker_windows:
  "locate WindowsRules ''C:/data/set'' (''C:/data/set'' @ backslash # ''.DS_Store'') =
     InFolder ''.DS_Store''"
  by (simp add: locate_def is_sep_def backslash_def)

lemma locate_marker_posix:
  "locate PosixRules ''/data/set'' (''/data/set'' @ backslash # ''.DS_Store'') = OutsideFolder"
  by (simp add: locate_def is_sep_def backslash_def)

text \<open>
  When nothing sits where the marker path leads, \<^verbatim>\<open>FileNotFoundError\<close> is caught: the
  loader returns, the folder is as before, and the dictionary is the grouping of its
  listing. This holds under both sets of rules.
\<close>

lemma load_input_nothing_at_marker_path:
  assumes "snd (os_remove_path h (folder h @ backslash # ''.DS_Store'')) = Inl FileNotFoundError"
  shows "\<exists>h1. load_input h = Inr (h1, group_files (os_listdir (dataset h)) [])
           \<and> entries (dataset h1) = entries (dataset h)"
proof -
  obtain h1 where r: "os_remove_path h (folder h @ backslash # ''.DS_Store'') =
      (h1, Inl FileNotFoundError)"
    using assms by (cases "os_remove_path h (folder h @ backslash # ''.DS_Store'')") simp
  have "entries (dataset h1) = entries (dataset h)"
    using r assms
    by (auto simp: os_remove_path_def os_remove_def Let_def
        split: place.splits option.splits node.splits)
  then show ?thesis
    by (simp add: load_input_def r os_listdir_def)
qed

text \<open>
  Under Windows rules a deletable \<^verbatim>\<open>.DS_Store\<close> in the folder is deleted before the
  listing is read, and the dictionary is the grouping of the other entries.
\<close>

lemma load_input_deletes_marker:
  assumes "locate (os_rules h) (folder h) (folder h @ backslash # ''.DS_Store'') =
      InFolder ''.DS_Store''"
    and "map_of (entries (dataset h)) ''.DS_Store'' = Some RegularFile"
  shows "\<exists>h1. load_input h =
      Inr (h1, group_files (filter (\<lambda>n. n \<noteq> ''.DS_Store'') (os_listdir (dataset h))) [])"
  using assms
  by (simp add: load_input_def os_remove_path_def os_remove_def os_listdir_def
      filter_map comp_def)

text \<open>
  Claim C7 says that the loader leaves a present \<^verbatim>\<open>.DS_Store\<close> out of the dictionary, and
  the docstring of \<^verbatim>\<open>load_input\<close> says that the file is removed if present. The marker
  path is built with a backslash, where the other paths of the program are built with
  \<^verbatim>\<open>os.path.join\<close>. Under POSIX rules, on a folder \<^verbatim>\<open>/data/set\<close> that holds
  \<^verbatim>\<open>c10-1.png\<close>, \<^verbatim>\<open>.DS_Store\<close> and \<^verbatim>\<open>c10-2.png\<close>, the call to \<^verbatim>\<open>os.remove\<close> is on a path
  beside the folder, raises \<^verbatim>\<open>FileNotFoundError\<close>, and the loader returns with the marker
  still in the folder and the key \<^verbatim>\<open>.DS\<close> in the dictionary. The grouping of the
  remaining entries, which the claim asks for, has the key \<^verbatim>\<open>c10\<close> only.
\<close>

theorem loader_marker_bug:
  "load_input
     \<lparr>os_rules = PosixRules, folder = ''/data/set'',
      dataset = \<lparr>entries = [(''c10-1.png'', RegularFile), (''.DS_Store'', RegularFile),
                             (''c10-2.png'', RegularFile)],
                 remove_calls = []\<rparr>,
      outside = \<lparr>entries = [], remove_calls = []\<rparr>\<rparr> =
   Inr (\<lparr>os_rules = PosixRules, folder = ''/data/set'',
         dataset = \<lparr>entries = [(''c10-1.png'', RegularFile), (''.DS_Store'', RegularFile),
                                (''c10-2.png'', RegularFile)],
                    remove_calls = []\<rparr>,
         outside = \<lparr>entries = [],
                    remove_calls = [''/data/set'' @ backslash # ''.DS_Store'']\<rparr>\<rparr>,
        [(''c10'', [''c10-2.png'']), (''.DS'', [])])
   \<and> group_files (filter (\<lambda>n. n \<noteq> ''.DS_Store'')
        [''c10-1.png'', ''.DS_Store'', ''c10-2.png'']) [] = [(''c10'', [''c10-2.png''])]"
  by (simp add: load_input_def os_remove_path_def locate_def is_sep_def backslash_def
      os_remove_def os_listdir_def dict_contains_def dict_new_key_def dict_append_def)

section \<open>The detector\<close>

lemma detect_step_undecodable:
  "imread cv name = None \<Longrightarrow>
     detect_step cv r t area st name = (fst st, snd st @ [name])"
  by (simp add: detect_step_def)

lemma detect_step_adopt:
  "imread cv name = Some img \<Longrightarrow>
     detect_step cv r t area (None, u) name = (Some img, u)"
  by (simp add: detect_step_def)

lemma detect_step_compare:
  "imread cv name = Some img \<Longrightarrow>
     detect_step cv r t area (Some rep, u) name =
       (if score_of cv r area rep (reconcile cv rep img) < t
        then (Some rep, u @ [name])
        else (Some (reconcile cv rep img), u))"
  by (simp add: detect_step_def Let_def)

lemma reconcile_grid:
  "rows (reconcile cv rep img) = rows rep \<and> cols (reconcile cv rep img) = cols rep"
  by (simp add: reconcile_def cv2_resize_def shape_def Let_def)

lemma reconcile_resized:
  "shape rep \<noteq> shape img \<Longrightarrow> reconcile cv rep img = cv2_resize cv img (cols rep, rows rep)"
  by (simp add: reconcile_def shape_def Let_def)

lemma images_loop_append:
  "images_loop cv r t area st (xs @ ys) =
     images_loop cv r t area (images_loop cv r t area st xs) ys"
  by (induction xs arbitrary: st) simp_all

lemma detect_step_prefix:
  "detect_step cv r t area (c, u) name =
     (fst (detect_step cv r t area (c, []) name),
      u @ snd (detect_step cv r t area (c, []) name))"
  by (simp add: detect_step_def Let_def split: option.splits)

lemma images_loop_prefix:
  "images_loop cv r t area (c, u) names =
     (fst (images_loop cv r t area (c, []) names),
      u @ snd (images_loop cv r t area (c, []) names))"
proof (induction names arbitrary: c u)
  case Nil
  show ?case by simp
next
  case (Cons name names)
  obtain c1 u1 where s1: "detect_step cv r t area (c, []) name = (c1, u1)"
    by (cases "detect_step cv r t area (c, []) name")
  have s2: "detect_step cv r t area (c, u) name = (c1, u @ u1)"
    using detect_step_prefix [of cv r t area c u name] s1 by simp
  show ?case
    using Cons.IH [of c1 "u @ u1"] Cons.IH [of c1 u1] by (simp add: s1 s2)
qed

lemma cameras_loop_concat:
  "cameras_loop cv r t area u dataset_dict =
     u @ concat (map (\<lambda>entry. camera_walk cv r t area (snd entry)) dataset_dict)"
proof (induction dataset_dict arbitrary: u)
  case Nil
  show ?case by simp
next
  case (Cons entry rest)
  have "snd (images_loop cv r t area (None, u) (snd entry)) =
      u @ camera_walk cv r t area (snd entry)"
    using images_loop_prefix [of cv r t area None u "snd entry"]
    by (simp add: camera_walk_def)
  then show ?case by (simp add: Cons.IH)
qed

lemma images_loop_all_undecodable:
  "\<forall>p \<in> set names. imread cv p = None \<Longrightarrow>
     images_loop cv r t area (c, u) names = (c, u @ names)"
  by (induction names arbitrary: u) (simp_all add: detect_step_undecodable)

lemma images_loop_keeps_undecodable:
  "imread cv name = None \<Longrightarrow> name \<in> set names \<or> name \<in> set u \<Longrightarrow>
     name \<in> set (snd (images_loop cv r t area (c, u) names))"
proof (induction names arbitrary: c u)
  case Nil
  then show ?case by simp
next
  case (Cons n names)
  obtain c1 u1 where s1: "detect_step cv r t area (c, []) n = (c1, u1)"
    by (cases "detect_step cv r t area (c, []) n")
  have s2: "detect_step cv r t area (c, u) n = (c1, u @ u1)"
    using detect_step_prefix [of cv r t area c u n] s1 by simp
  have "name \<in> set names \<or> name \<in> set (u @ u1)"
  proof (cases "name = n")
    case True
    with Cons.prems(1) s1 have "u1 = [n]"
      by (simp add: detect_step_undecodable)
    with True show ?thesis by simp
  next
    case False
    with Cons.prems(2) show ?thesis by auto
  qed
  then show ?case
    using Cons.IH [of "u @ u1" c1] Cons.prems(1) by (simp add: s2)
qed

lemma images_loop_subset:
  "set (snd (images_loop cv r t area (c, u) names)) \<subseteq> set u \<union> set names"
proof (induction names arbitrary: c u)
  case Nil
  show ?case by simp
next
  case (Cons n names)
  obtain c1 u1 where s1: "detect_step cv r t area (c, u) n = (c1, u1)"
    by (cases "detect_step cv r t area (c, u) n")
  have "set u1 \<subseteq> set u \<union> {n}"
    using s1 by (auto simp: detect_step_def Let_def split: option.splits if_splits)
  then show ?case
    using Cons.IH [of c1 u1] by (auto simp: s1)
qed

lemma images_loop_grid:
  "\<exists>rep'. fst (images_loop cv r t area (Some rep, u) names) = Some rep'
      \<and> rows rep' = rows rep \<and> cols rep' = cols rep"
proof (induction names arbitrary: rep u)
  case Nil
  show ?case by simp
next
  case (Cons n names)
  have "\<exists>rep1 u1. detect_step cv r t area (Some rep, u) n = (Some rep1, u1)
      \<and> rows rep1 = rows rep \<and> cols rep1 = cols rep"
  proof (cases "imread cv n")
    case None
    then show ?thesis by (simp add: detect_step_undecodable)
  next
    case (Some img)
    then show ?thesis by (simp add: detect_step_compare reconcile_grid)
  qed
  then obtain rep1 u1 where s: "detect_step cv r t area (Some rep, u) n = (Some rep1, u1)"
    and g: "rows rep1 = rows rep" "cols rep1 = cols rep" by blast
  show ?case
    using Cons.IH [of rep1 u1] by (simp add: s g)
qed

lemma images_loop_first_decoded:
  "\<forall>p \<in> set pre. imread cv p = None \<Longrightarrow> imread cv name = Some img \<Longrightarrow>
     images_loop cv r t area (None, u) (pre @ name # rest) =
       images_loop cv r t area (Some img, u @ pre) rest"
  by (simp add: images_loop_append images_loop_all_undecodable detect_step_adopt)

lemma images_loop_single_decoded:
  "length (filter (\<lambda>n. imread cv n \<noteq> None) names) \<le> 1 \<Longrightarrow>
     snd (images_loop cv r t area (None, u) names) =
       u @ filter (\<lambda>n. imread cv n = None) names"
proof (induction names arbitrary: u)
  case Nil
  show ?case by simp
next
  case (Cons n names)
  show ?case
  proof (cases "imread cv n")
    case None
    with Cons show ?thesis by (simp add: detect_step_undecodable)
  next
    case (Some img)
    with Cons.prems have "filter (\<lambda>n. imread cv n \<noteq> None) names = []" by simp
    then have all: "\<forall>p \<in> set names. imread cv p = None"
      by (simp add: filter_empty_conv)
    then have "filter (\<lambda>n. imread cv n = None) names = names"
      by (simp add: filter_id_conv)
    with Some all show ?thesis
      by (simp add: detect_step_adopt images_loop_all_undecodable)
  qed
qed

lemma mset_concat_map_cong:
  "mset xs = mset ys \<Longrightarrow> mset (concat (map f xs)) = mset (concat (map f ys))"
proof -
  assume e: "mset xs = mset ys"
  have "mset (concat (map f zs)) = (\<Sum>z\<in>#mset zs. mset (f z))" for zs
    by (induction zs) simp_all
  with e show ?thesis by simp
qed



text \<open>
  Claim C4: a file name that does not decode is appended to the list whatever the state
  is (no image held, or a representative held), the state is otherwise unchanged, and the
  walk goes on with the next name. So every such name of a camera's sequence is in the
  list the method produces.
\<close>

theorem decode_failure_always_listed:
  assumes "imread cv name = None"
  shows
    "detect_step cv r t area (cur, u) name = (cur, u @ [name])
     \<and> images_loop cv r t area (cur, u) (name # rest) =
         images_loop cv r t area (cur, u @ [name]) rest
     \<and> (name \<in> set names \<longrightarrow> name \<in> set (snd (images_loop cv r t area (cur, u) names)))
     \<and> (\<forall>entry \<in> set dataset_dict. name \<in> set (snd entry) \<longrightarrow>
          name \<in> set (identify_similar_photos cv dataset_dict r t area))"
proof (intro conjI impI ballI)
  show s: "detect_step cv r t area (cur, u) name = (cur, u @ [name])"
    using assms by (simp add: detect_step_undecodable)
  show "images_loop cv r t area (cur, u) (name # rest) =
         images_loop cv r t area (cur, u @ [name]) rest"
    by (simp add: s)
  show "name \<in> set (snd (images_loop cv r t area (cur, u) names))" if "name \<in> set names"
    using assms that by (simp add: images_loop_keeps_undecodable)
  show "name \<in> set (identify_similar_photos cv dataset_dict r t area)"
    if e: "entry \<in> set dataset_dict" and n: "name \<in> set (snd entry)" for entry
  proof -
    have "name \<in> set (camera_walk cv r t area (snd entry))"
      unfolding camera_walk_def using assms n by (simp add: images_loop_keeps_undecodable)
    with e show ?thesis
      by (auto simp: identify_similar_photos_def cameras_loop_concat)
  qed
qed

theorem decode_failure_always_listed_witness:
  "imread demo_vision ''c10-0.png'' = None
   \<and> detect_step demo_vision [5, 7] 750 50 (None, []) ''c10-0.png'' = (None, [''c10-0.png''])
   \<and> ''c10-0.png'' \<in> set (identify_similar_photos demo_vision
        [(''c10'', [''c10-0.png'', ''c10-1.png''])] [5, 7] 750 50)"
proof -
  have a: "imread demo_vision ''c10-0.png'' = None"
    by (simp add: demo_vision_def)
  show ?thesis
    using a decode_failure_always_listed [OF a, of "[5, 7]" 750 50 None "[]" "[]"
        "[''c10-0.png'', ''c10-1.png'']" "[(''c10'', [''c10-0.png'', ''c10-1.png''])]"]
    by simp
qed

text \<open>
  Claim C5: the candidate handed to preprocessing and scoring has the rows and columns of
  the representative; when the shapes differ it is the decoded image resized to
  (columns, rows) of the representative, which is the (width, height) order
  \<^verbatim>\<open>cv2.resize\<close> expects. The step then ends in an ordinary state; the method has no
  error result.
\<close>

theorem shape_reconciliation:
  "rows (reconcile cv rep img) = rows rep \<and> cols (reconcile cv rep img) = cols rep
   \<and> (shape rep \<noteq> shape img \<longrightarrow>
        reconcile cv rep img = cv2_resize cv img (cols rep, rows rep))
   \<and> (imread cv name = Some img \<longrightarrow>
        detect_step cv r t area (Some rep, u) name =
          (if score_of cv r area rep (reconcile cv rep img) < t
           then (Some rep, u @ [name])
           else (Some (reconcile cv rep img), u)))"
  by (simp add: reconcile_grid reconcile_resized detect_step_compare)

theorem shape_reconciliation_witness:
  "shape (demo_frame 2 4 10) \<noteq> shape (demo_frame 4 2 30)
   \<and> imread demo_vision ''c10-3.png'' = Some (demo_frame 4 2 30)
   \<and> reconcile demo_vision (demo_frame 2 4 10) (demo_frame 4 2 30) = demo_frame 2 4 30
   \<and> detect_step demo_vision [5, 7] 750 50 (Some (demo_frame 2 4 10), []) ''c10-3.png'' =
       (Some (demo_frame 2 4 30), [])"
  using shape_reconciliation [of demo_vision "demo_frame 2 4 10" "demo_frame 4 2 30"
      "''c10-3.png''" "[5, 7]" 750 50 "[]"]
  by (simp add: demo_vision_def demo_frame_def reconcile_def cv2_resize_def shape_def
      score_of_def)

text \<open>
  Claim C6: in a camera's sequence, the first name that decodes (after names \<open>pre\<close> that
  do not) is adopted as the representative and nothing is appended for it. The state after
  it is the same for every comparison function and every threshold, so no comparison
  decides it. With distinct file names its name is not in the list after the walk. A
  camera with exactly one name that decodes contributes its undecodable names and nothing
  else.
\<close>

theorem first_decoded_frame_retained:
  "((\<forall>p \<in> set pre. imread cv p = None) \<and> imread cv name = Some img \<longrightarrow>
      images_loop cv r t area (None, u) (pre @ name # rest) =
        images_loop cv r t area (Some img, u @ pre) rest
      \<and> images_loop (cv\<lparr>compare_frames_change_detection := c'\<rparr>) r t' area (None, u)
            (pre @ [name]) = (Some img, u @ pre)
      \<and> (distinct (pre @ name # rest) \<and> name \<notin> set u \<longrightarrow>
           name \<notin> set (snd (images_loop cv r t area (None, u) (pre @ name # rest)))))
   \<and> (length (filter (\<lambda>n. imread cv n \<noteq> None) names) = 1 \<longrightarrow>
        camera_walk cv r t area names = filter (\<lambda>n. imread cv n = None) names)"
proof (intro conjI impI)
  assume h: "(\<forall>p \<in> set pre. imread cv p = None) \<and> imread cv name = Some img"
  then have pre: "\<forall>p \<in> set pre. imread cv p = None" and dec: "imread cv name = Some img"
    by simp_all
  show split: "images_loop cv r t area (None, u) (pre @ name # rest) =
        images_loop cv r t area (Some img, u @ pre) rest"
    using pre dec by (rule images_loop_first_decoded)
  have "images_loop (cv\<lparr>compare_frames_change_detection := c'\<rparr>) r t' area (None, u)
      (pre @ name # []) =
      images_loop (cv\<lparr>compare_frames_change_detection := c'\<rparr>) r t' area (Some img, u @ pre) []"
    by (rule images_loop_first_decoded) (simp_all add: pre dec)
  then show "images_loop (cv\<lparr>compare_frames_change_detection := c'\<rparr>) r t' area (None, u)
      (pre @ [name]) = (Some img, u @ pre)"
    by simp
  show "name \<notin> set (snd (images_loop cv r t area (None, u) (pre @ name # rest)))"
    if d: "distinct (pre @ name # rest) \<and> name \<notin> set u"
  proof -
    have "set (snd (images_loop cv r t area (Some img, u @ pre) rest))
        \<subseteq> set (u @ pre) \<union> set rest"
      by (rule images_loop_subset)
    moreover have "name \<notin> set (u @ pre) \<union> set rest"
      using d by auto
    ultimately show ?thesis
      unfolding split by blast
  qed
next
  assume "length (filter (\<lambda>n. imread cv n \<noteq> None) names) = 1"
  then have "length (filter (\<lambda>n. imread cv n \<noteq> None) names) \<le> 1" by simp
  then show "camera_walk cv r t area names = filter (\<lambda>n. imread cv n = None) names"
    unfolding camera_walk_def
    using images_loop_single_decoded [of cv names r t area "[]"] by simp
qed

theorem first_decoded_frame_retained_witness:
  "(imread demo_vision ''c10-0.png'' = None
    \<and> imread demo_vision ''c10-1.png'' = Some (demo_frame 2 4 10))
   \<and> images_loop demo_vision [5, 7] 750 50 (None, [])
        ([''c10-0.png''] @ ''c10-1.png'' # [''c10-2.png'']) =
      images_loop demo_vision [5, 7] 750 50 (Some (demo_frame 2 4 10), [''c10-0.png''])
        [''c10-2.png'']
   \<and> ''c10-1.png'' \<notin> set (snd (images_loop demo_vision [5, 7] 750 50 (None, [])
        ([''c10-0.png''] @ ''c10-1.png'' # [''c10-2.png''])))
   \<and> length (filter (\<lambda>n. imread demo_vision n \<noteq> None) [''c10-0.png'', ''c10-1.png'']) = 1
   \<and> camera_walk demo_vision [5, 7] 750 50 [''c10-0.png'', ''c10-1.png''] = [''c10-0.png'']"
  using first_decoded_frame_retained [of "[''c10-0.png'']" demo_vision "''c10-1.png''"
      "demo_frame 2 4 10" "[5, 7]" 750 50 "[]" "[''c10-2.png'']"
      "compare_frames_change_detection demo_vision" 750 "[''c10-0.png'', ''c10-1.png'']"]
  by (simp add: demo_vision_def demo_frame_def detect_step_def reconcile_def shape_def
      score_of_def camera_walk_def)

text \<open>
  Claim C9: the list the method produces is the concatenation, in dictionary order, of
  what each camera's own walk produces when started with no image held and an empty list.
  So reordering the cameras permutes the list. With two cameras of two frames each, the
  second frame of each scoring below the threshold against the first, the list has the two
  second frames, in either order of the cameras.
\<close>

theorem camera_independence:
  "identify_similar_photos cv dataset_dict r t area =
     concat (map (\<lambda>entry. camera_walk cv r t area (snd entry)) dataset_dict)
   \<and> (mset dict' = mset dataset_dict \<longrightarrow>
        mset (identify_similar_photos cv dict' r t area) =
          mset (identify_similar_photos cv dataset_dict r t area))
   \<and> (imread cv a1 = Some ia1 \<and> imread cv a2 = Some ia2
      \<and> imread cv b1 = Some ib1 \<and> imread cv b2 = Some ib2
      \<and> score_of cv r area ia1 (reconcile cv ia1 ia2) < t
      \<and> score_of cv r area ib1 (reconcile cv ib1 ib2) < t \<longrightarrow>
        identify_similar_photos cv [(ca, [a1, a2]), (cb, [b1, b2])] r t area = [a2, b2]
        \<and> identify_similar_photos cv [(cb, [b1, b2]), (ca, [a1, a2])] r t area = [b2, a2]
        \<and> length (identify_similar_photos cv [(ca, [a1, a2]), (cb, [b1, b2])] r t area) = 2
        \<and> length (identify_similar_photos cv [(cb, [b1, b2]), (ca, [a1, a2])] r t area) = 2)"
proof -
  have dec: "identify_similar_photos cv d r t area =
      concat (map (\<lambda>entry. camera_walk cv r t area (snd entry)) d)" for d
    by (simp add: identify_similar_photos_def cameras_loop_concat)
  have pair: "camera_walk cv r t area [x1, x2] = [x2]"
    if "imread cv x1 = Some i1" "imread cv x2 = Some i2"
      "score_of cv r area i1 (reconcile cv i1 i2) < t" for x1 x2 i1 i2
    using that by (simp add: camera_walk_def detect_step_adopt detect_step_compare)
  show ?thesis
  proof (intro conjI impI)
    show "identify_similar_photos cv dataset_dict r t area =
        concat (map (\<lambda>entry. camera_walk cv r t area (snd entry)) dataset_dict)"
      by (rule dec)
    show "mset (identify_similar_photos cv dict' r t area) =
        mset (identify_similar_photos cv dataset_dict r t area)"
      if "mset dict' = mset dataset_dict"
      unfolding dec using that by (rule mset_concat_map_cong)
  next
    assume h: "imread cv a1 = Some ia1 \<and> imread cv a2 = Some ia2
      \<and> imread cv b1 = Some ib1 \<and> imread cv b2 = Some ib2
      \<and> score_of cv r area ia1 (reconcile cv ia1 ia2) < t
      \<and> score_of cv r area ib1 (reconcile cv ib1 ib2) < t"
    have wa: "camera_walk cv r t area [a1, a2] = [a2]"
      using h by (intro pair [of a1 ia1 a2 ia2]) simp_all
    have wb: "camera_walk cv r t area [b1, b2] = [b2]"
      using h by (intro pair [of b1 ib1 b2 ib2]) simp_all
    show "identify_similar_photos cv [(ca, [a1, a2]), (cb, [b1, b2])] r t area = [a2, b2]"
      by (simp add: dec wa wb)
    show "identify_similar_photos cv [(cb, [b1, b2]), (ca, [a1, a2])] r t area = [b2, a2]"
      by (simp add: dec wa wb)
    show "length (identify_similar_photos cv [(ca, [a1, a2]), (cb, [b1, b2])] r t area) = 2"
      by (simp add: dec wa wb)
    show "length (identify_similar_photos cv [(cb, [b1, b2]), (ca, [a1, a2])] r t area) = 2"
      by (simp add: dec wa wb)
  qed
qed

theorem camera_independence_witness:
  "(imread demo_vision ''c10-1.png'' = Some (demo_frame 2 4 10)
    \<and> imread demo_vision ''c10-2.png'' = Some (demo_frame 2 4 11)
    \<and> imread demo_vision ''c20-1.png'' = Some (demo_frame 2 4 50)
    \<and> imread demo_vision ''c20-2.png'' = Some (demo_frame 2 4 50)
    \<and> score_of demo_vision [5, 7] 50 (demo_frame 2 4 10)
         (reconcile demo_vision (demo_frame 2 4 10) (demo_frame 2 4 11)) < 750
    \<and> score_of demo_vision [5, 7] 50 (demo_frame 2 4 50)
         (reconcile demo_vision (demo_frame 2 4 50) (demo_frame 2 4 50)) < 750)
   \<and> mset [(''c20'', [''c20-1.png'', ''c20-2.png'']), (''c10'', [''c10-1.png'', ''c10-2.png''])]
       = mset [(''c10'', [''c10-1.png'', ''c10-2.png'']), (''c20'', [''c20-1.png'', ''c20-2.png''])]
   \<and> length (identify_similar_photos demo_vision
        [(''c10'', [''c10-1.png'', ''c10-2.png'']), (''c20'', [''c20-1.png'', ''c20-2.png''])]
        [5, 7] 750 50) = 2
   \<and> length (identify_similar_photos demo_vision
        [(''c20'', [''c20-1.png'', ''c20-2.png'']), (''c10'', [''c10-1.png'', ''c10-2.png''])]
        [5, 7] 750 50) = 2"
proof -
  have a: "imread demo_vision ''c10-1.png'' = Some (demo_frame 2 4 10)
    \<and> imread demo_vision ''c10-2.png'' = Some (demo_frame 2 4 11)
    \<and> imread demo_vision ''c20-1.png'' = Some (demo_frame 2 4 50)
    \<and> imread demo_vision ''c20-2.png'' = Some (demo_frame 2 4 50)
    \<and> score_of demo_vision [5, 7] 50 (demo_frame 2 4 10)
         (reconcile demo_vision (demo_frame 2 4 10) (demo_frame 2 4 11)) < 750
    \<and> score_of demo_vision [5, 7] 50 (demo_frame 2 4 50)
         (reconcile demo_vision (demo_frame 2 4 50) (demo_frame 2 4 50)) < 750"
    by (simp add: demo_vision_def demo_frame_def reconcile_def shape_def score_of_def)
  have b: "mset [(''c20'', [''c20-1.png'', ''c20-2.png'']), (''c10'', [''c10-1.png'', ''c10-2.png''])]
       = mset [(''c10'', [''c10-1.png'', ''c10-2.png'']), (''c20'', [''c20-1.png'', ''c20-2.png''])]"
    by (simp add: add_mset_commute)
  show ?thesis
    using a b
      camera_independence [of demo_vision "[]" "[5, 7]" 750 50 "[]"
        "''c10-1.png''" "demo_frame 2 4 10" "''c10-2.png''" "demo_frame 2 4 11"
        "''c20-1.png''" "demo_frame 2 4 50" "''c20-2.png''" "demo_frame 2 4 50"
        "''c10''" "''c20''"]
    by simp
qed

text \<open>
  Claim C10: when a candidate of a different shape scores at or above the threshold, the
  new representative is the resized image, not the decoded one. So at every point of a
  walk (after any number \<open>k\<close> of further names) the representative has the rows and
  columns of the first frame of the camera that decoded.
\<close>

theorem representative_keeps_first_grid:
  "(imread cv name = Some img \<and> shape rep \<noteq> shape img
      \<and> \<not> score_of cv r area rep (reconcile cv rep img) < t \<longrightarrow>
      fst (detect_step cv r t area (Some rep, u) name) =
        Some (cv2_resize cv img (cols rep, rows rep)))
   \<and> (\<exists>rep'. fst (images_loop cv r t area (Some rep, u) (take k names)) = Some rep'
        \<and> rows rep' = rows rep \<and> cols rep' = cols rep)
   \<and> ((\<forall>p \<in> set pre. imread cv p = None) \<and> imread cv first = Some img \<longrightarrow>
        (\<exists>rep'. fst (images_loop cv r t area (None, u) (pre @ first # take k rest)) = Some rep'
           \<and> rows rep' = rows img \<and> cols rep' = cols img))"
proof (intro conjI impI)
  assume "imread cv name = Some img \<and> shape rep \<noteq> shape img
      \<and> \<not> score_of cv r area rep (reconcile cv rep img) < t"
  then have d: "imread cv name = Some img" and m: "shape rep \<noteq> shape img"
    and s: "\<not> score_of cv r area rep (reconcile cv rep img) < t"
    by simp_all
  have "fst (detect_step cv r t area (Some rep, u) name) = Some (reconcile cv rep img)"
    using s by (simp add: detect_step_compare [OF d])
  then show "fst (detect_step cv r t area (Some rep, u) name) =
        Some (cv2_resize cv img (cols rep, rows rep))"
    by (simp add: reconcile_resized [OF m])
next
  show "\<exists>rep'. fst (images_loop cv r t area (Some rep, u) (take k names)) = Some rep'
        \<and> rows rep' = rows rep \<and> cols rep' = cols rep"
    by (rule images_loop_grid)
next
  assume "(\<forall>p \<in> set pre. imread cv p = None) \<and> imread cv first = Some img"
  then have "images_loop cv r t area (None, u) (pre @ first # take k rest) =
      images_loop cv r t area (Some img, u @ pre) (take k rest)"
    by (intro images_loop_first_decoded) simp_all
  then show "\<exists>rep'. fst (images_loop cv r t area (None, u) (pre @ first # take k rest)) = Some rep'
           \<and> rows rep' = rows img \<and> cols rep' = cols img"
    using images_loop_grid [of cv r t area img "u @ pre" "take k rest"] by simp
qed

theorem representative_keeps_first_grid_witness:
  "(imread demo_vision ''c10-3.png'' = Some (demo_frame 4 2 30)
    \<and> shape (demo_frame 2 4 10) \<noteq> shape (demo_frame 4 2 30)
    \<and> \<not> score_of demo_vision [5, 7] 50 (demo_frame 2 4 10)
          (reconcile demo_vision (demo_frame 2 4 10) (demo_frame 4 2 30)) < 750)
   \<and> fst (detect_step demo_vision [5, 7] 750 50 (Some (demo_frame 2 4 10), []) ''c10-3.png'') =
       Some (demo_frame 2 4 30)
   \<and> (imread demo_vision ''c10-0.png'' = None
      \<and> imread demo_vision ''c10-1.png'' = Some (demo_frame 2 4 10))
   \<and> fst (images_loop demo_vision [5, 7] 750 50 (None, [])
        [''c10-0.png'', ''c10-1.png'', ''c10-2.png'', ''c10-3.png'']) = Some (demo_frame 2 4 30)"
  using representative_keeps_first_grid [of demo_vision "''c10-3.png''" "demo_frame 4 2 30"
      "demo_frame 2 4 10" "[5, 7]" 50 750 "[]" 2 "[''c10-2.png'', ''c10-3.png'']"
      "[''c10-0.png'']" "''c10-1.png''" "[''c10-2.png'', ''c10-3.png'']"]
  by (simp add: demo_vision_def demo_frame_def reconcile_def cv2_resize_def shape_def
      score_of_def detect_step_def)

end
